theory Spec2Isabelle
  imports Complex_Main "HOL-Library.Multiset" "HOL-Library.Sublist"
begin

section \<open>The music player of \<^verbatim>\<open>cogs/music/music_player.py\<close>\<close>

text \<open>
  The class \<^verbatim>\<open>MusicPlayer\<close> keeps, for one guild, a list of track objects, a separately
  maintained length counter, a loop flag and a pause/skip timestamp, and drives a voice
  client. The model is a record of the attributes; every method takes the record and returns
  the updated record, together with the returned value or the raised exception.

  Track objects are shared mutable objects, so the queue is a list of references into an
  object store, and the attributes of the objects live in the store. A Python string is a
  list of code points. Each coroutine body is modelled as one sequential step; what
  \<^verbatim>\<open>create_task\<close> schedules is appended to a task list and not run inside the step.
\<close>

subsection \<open>Data\<close>

type_synonym pystr = "nat list"
type_synonym ref = nat
type_synonym stream = nat

datatype exn =
  OverflowError | IndexError | ValueError | NameError | ClientException | OtherException

text \<open>
  Modelled from the spec: the class \<^verbatim>\<open>MusicData\<close> (imported from \<^verbatim>\<open>.cogs.music\<close>, its
  declaration is not among the sources). The spec gives a track entry a title, a
  ``started'' transition, a ``stopped'' transition and a release operation; the player
  assigns the attribute \<^verbatim>\<open>_make_get_source\<close>. The record keeps the title, whether that
  attribute has been assigned, the started/stopped state, and how often the stream was
  released.
\<close>

record MusicData =
  title :: pystr
  make_get_source_attr :: bool
  running :: bool
  close_calls :: nat

definition started :: "MusicData \<Rightarrow> MusicData" where
  "started m = m\<lparr>running := True\<rparr>"

definition stopped :: "MusicData \<Rightarrow> MusicData" where
  "stopped m = m\<lparr>running := False\<rparr>"

definition close :: "MusicData \<Rightarrow> MusicData" where
  "close m = m\<lparr>close_calls := Suc (close_calls m)\<rparr>"

text \<open>
  Modelled from the spec: the voice sink (\<^verbatim>\<open>discord.VoiceClient\<close>, an external library).
  The sink holds at most one stream, is outputting it or not, and accepts a start request
  only in a suitable client state; a start registers the completion callback.
\<close>

record VoiceClient =
  player :: "stream option"
  resumed :: bool
  client_ready :: bool
  after_registered :: bool

definition is_playing :: "VoiceClient \<Rightarrow> bool" where
  "is_playing vc = (player vc \<noteq> None \<and> resumed vc)"

definition is_paused :: "VoiceClient \<Rightarrow> bool" where
  "is_paused vc = (player vc \<noteq> None \<and> \<not> resumed vc)"

definition vc_play :: "stream \<Rightarrow> VoiceClient \<Rightarrow> exn + VoiceClient" where
  "vc_play src vc =
     (if client_ready vc
      then Inr (vc\<lparr>player := Some src, resumed := True, after_registered := True\<rparr>)
      else Inl ClientException)"

definition vc_stop :: "VoiceClient \<Rightarrow> VoiceClient" where
  "vc_stop vc = vc\<lparr>player := None\<rparr>"

definition vc_pause :: "VoiceClient \<Rightarrow> VoiceClient" where
  "vc_pause vc = vc\<lparr>resumed := False\<rparr>"

definition vc_resume :: "VoiceClient \<Rightarrow> VoiceClient" where
  "vc_resume vc = vc\<lparr>resumed := True\<rparr>"

text \<open>
  The attributes of \<^verbatim>\<open>MusicPlayer\<close>: \<^verbatim>\<open>queues\<close>, \<^verbatim>\<open>length\<close> (here \<open>length'\<close>),
  \<^verbatim>\<open>_loop\<close> (here \<open>loop_attr\<close>), \<^verbatim>\<open>before\<close> and \<^verbatim>\<open>voice_client\<close>; further the object
  store, the messages sent to \<^verbatim>\<open>channel\<close>, the tasks created on the bot's event loop
  (each a pending call of \<^verbatim>\<open>_after\<close> with its argument) and the lines printed.
  Time stamps are exact reals; the rounding of binary floating point is not modelled.
\<close>

record MusicPlayer =
  queues :: "ref list"
  length' :: int
  loop_attr :: bool
  before :: real
  voice_client :: VoiceClient
  heap :: "ref \<Rightarrow> MusicData"
  channel :: "pystr list"
  tasks :: "exn option list"
  printed :: "exn list"

text \<open>The class constant \<^verbatim>\<open>MAX\<close>, here \<open>MAX'\<close>.\<close>

definition MAX' :: int where
  "MAX' = 800"

text \<open>\<^verbatim>\<open>__init__\<close>: an empty queue, counter 0, loop off, timestamp 0.\<close>

definition init :: "VoiceClient \<Rightarrow> (ref \<Rightarrow> MusicData) \<Rightarrow> MusicPlayer" where
  "init vc h =
     \<lparr>queues = [], length' = 0, loop_attr = False, before = 0, voice_client = vc,
      heap = h, channel = [], tasks = [], printed = []\<rparr>"

subsection \<open>Queue operations\<close>

text \<open>
  \<^verbatim>\<open>add_queue\<close> first assigns \<^verbatim>\<open>music._make_get_source\<close>, then compares the counter
  with \<^verbatim>\<open>MAX\<close>.
\<close>

definition add_queue :: "ref \<Rightarrow> MusicPlayer \<Rightarrow> (exn + unit) \<times> MusicPlayer" where
  "add_queue music s =
     (let s1 = s\<lparr>heap := (heap s)(music := (heap s music)\<lparr>make_get_source_attr := True\<rparr>)\<rparr>
      in if length' s1 = MAX' then (Inl OverflowError, s1)
         else (Inr (), s1\<lparr>queues := queues s1 @ [music], length' := length' s1 + 1\<rparr>))"

text \<open>A run of \<^verbatim>\<open>add_queue\<close> calls; the first exception ends the run.\<close>

fun add_all :: "ref list \<Rightarrow> MusicPlayer \<Rightarrow> (exn + unit) \<times> MusicPlayer" where
  "add_all [] s = (Inr (), s)"
| "add_all (m # ms) s =
     (case add_queue m s of
        (Inl e, s') \<Rightarrow> (Inl e, s')
      | (Inr u, s') \<Rightarrow> add_all ms s')"

text \<open>
  \<^verbatim>\<open>del xs[i]\<close> accepts \<open>-len \<le> i < len\<close>, a negative index counting from the end, and
  raises \<^verbatim>\<open>IndexError\<close> otherwise. \<^verbatim>\<open>xs.remove(x)\<close> deletes the first occurrence and
  raises \<^verbatim>\<open>ValueError\<close> when there is none; objects are compared by identity.
\<close>

definition del_at :: "nat \<Rightarrow> 'a list \<Rightarrow> 'a list" where
  "del_at k xs = take k xs @ drop (Suc k) xs"

definition remove_queue :: "int + ref \<Rightarrow> MusicPlayer \<Rightarrow> (exn + unit) \<times> MusicPlayer" where
  "remove_queue index s =
     (case index of
        Inl i \<Rightarrow>
          (let n = int (length (queues s)) in
           if - n \<le> i \<and> i < n
           then (Inr (), s\<lparr>queues := del_at (nat (if i < 0 then i + n else i)) (queues s),
                           length' := length' s - 1\<rparr>)
           else (Inl IndexError, s))
      | Inr m \<Rightarrow>
          (if m \<in> set (queues s)
           then (Inr (), s\<lparr>queues := remove1 m (queues s), length' := length' s - 1\<rparr>)
           else (Inl ValueError, s)))"

definition clear :: "MusicPlayer \<Rightarrow> MusicPlayer" where
  "clear s = s\<lparr>queues := take 1 (queues s)\<rparr>"

definition loop :: "MusicPlayer \<Rightarrow> bool \<times> MusicPlayer" where
  "loop s = (\<not> loop_attr s, s\<lparr>loop_attr := \<not> loop_attr s\<rparr>)"

text \<open>
  \<^verbatim>\<open>random.shuffle\<close> walks \<open>i\<close> from the last index down to 1 and swaps position \<open>i\<close>
  with a position drawn from \<open>0..i\<close>. The draws are a parameter: \<open>rnd i\<close> is the number
  drawn at step \<open>i\<close>, reduced into the range.
\<close>

definition swap :: "nat \<Rightarrow> nat \<Rightarrow> 'a list \<Rightarrow> 'a list" where
  "swap i j xs = xs[i := xs ! j, j := xs ! i]"

primrec shuffle_from :: "(nat \<Rightarrow> nat) \<Rightarrow> nat \<Rightarrow> 'a list \<Rightarrow> 'a list" where
  "shuffle_from rnd 0 xs = xs"
| "shuffle_from rnd (Suc k) xs =
     shuffle_from rnd k (swap (Suc k) (rnd (Suc k) mod (Suc (Suc k))) xs)"

definition random_shuffle :: "(nat \<Rightarrow> nat) \<Rightarrow> 'a list \<Rightarrow> 'a list" where
  "random_shuffle rnd xs = shuffle_from rnd (length xs - 1) xs"

definition shuffle :: "(nat \<Rightarrow> nat) \<Rightarrow> MusicPlayer \<Rightarrow> MusicPlayer" where
  "shuffle rnd s =
     (if length' s > 1
      then (let queues' = random_shuffle rnd (drop 1 (queues s))
            in s\<lparr>queues := take 1 (queues s) @ queues'\<rparr>)
      else s)"

subsection \<open>Playback\<close>

text \<open>
  \<^verbatim>\<open>play\<close>: the parameter \<open>get_source\<close> is the outcome of \<^verbatim>\<open>await queue.get_source()\<close>
  for the given object, a stream or an exception. The \<^verbatim>\<open>try\<close> block turns a
  \<^verbatim>\<open>ClientException\<close> of either call into the result \<^verbatim>\<open>False\<close>; any other exception
  leaves the method.
\<close>

definition play :: "(ref \<Rightarrow> exn + stream) \<Rightarrow> MusicPlayer \<Rightarrow> (exn + bool) \<times> MusicPlayer" where
  "play get_source s =
     (case queues s of
        queue # rest \<Rightarrow>
          (if \<not> is_playing (voice_client s)
           then
             (let s1 = s\<lparr>heap := (heap s)(queue := started (heap s queue)), before := 0\<rparr> in
              case get_source queue of
                Inl e \<Rightarrow> (if e = ClientException then (Inr False, s1) else (Inl e, s1))
              | Inr src \<Rightarrow>
                  (case vc_play src (voice_client s1) of
                     Inl e \<Rightarrow> (if e = ClientException then (Inr False, s1) else (Inl e, s1))
                   | Inr vc \<Rightarrow> (Inr True, s1\<lparr>voice_client := vc\<rparr>)))
           else (Inr False, s))
      | [] \<Rightarrow> (Inr False, s))"

text \<open>
  The text sent when \<^verbatim>\<open>play\<close> raises. The source's literal is a plain string, not an
  f-string, so the braces and the expression between them are characters of the text.
  \<^verbatim>\<open>replace\<close> is the replacement of one code point by another, as in
  \<^verbatim>\<open>.replace("@", "\<dots>")\<close> with the fullwidth commercial at (U+FF20).
\<close>

definition replace :: "nat \<Rightarrow> nat \<Rightarrow> pystr \<Rightarrow> pystr" where
  "replace old new text = map (\<lambda>c. if c = old then new else c) text"

definition error_text :: pystr where
  "error_text =
     [20309, 12425, 12363, 12398, 12456, 12521, 12540, 12395, 12424, 12426, 96]
     @ map of_char ''{self.queues[0].title}''
     @ [96, 12364, 20877, 29983, 12364, 12391, 12365, 12414, 12379, 12435, 12391, 12375,
        12383, 12290]"

text \<open>
  \<^verbatim>\<open>_after\<close>: \<^verbatim>\<open>self.queues[0]\<close> raises \<^verbatim>\<open>IndexError\<close> on an empty queue, before
  anything else happens. A supplied error is printed. With the loop flag off the head is
  removed through \<^verbatim>\<open>remove_queue(0)\<close>. Every exception of \<^verbatim>\<open>play\<close> is caught: the text
  is sent and one task running \<^verbatim>\<open>_after(None)\<close> is created.
\<close>

definition after :: "exn option \<Rightarrow> (ref \<Rightarrow> exn + stream) \<Rightarrow> MusicPlayer
    \<Rightarrow> (exn + unit) \<times> MusicPlayer" where
  "after e get_source s =
     (case queues s of
        [] \<Rightarrow> (Inl IndexError, s)
      | q0 # rest \<Rightarrow>
          (let s1 = s\<lparr>heap := (heap s)(q0 := close (heap s q0))\<rparr>;
               s2 = (case e of Some x \<Rightarrow> s1\<lparr>printed := printed s1 @ [x]\<rparr> | None \<Rightarrow> s1);
               (r, s3) = (if \<not> loop_attr s2 then remove_queue (Inl 0) s2 else (Inr (), s2))
           in case r of
                Inl x \<Rightarrow> (Inl x, s3)
              | Inr u \<Rightarrow>
                  (case play get_source s3 of
                     (Inl x, s4) \<Rightarrow>
                       (Inr (), s4\<lparr>channel := channel s4 @ [replace 64 65312 error_text],
                                   tasks := tasks s4 @ [None]\<rparr>)
                   | (Inr b, s4) \<Rightarrow> (Inr (), s4))))"

definition skip :: "real \<Rightarrow> MusicPlayer \<Rightarrow> MusicPlayer" where
  "skip time s = s\<lparr>voice_client := vc_stop (voice_client s), before := time\<rparr>"

text \<open>
  \<^verbatim>\<open>pause\<close>: in both branches the statement after the call on the voice client reads the
  name \<^verbatim>\<open>queue\<close>, which is bound neither in the method nor in the module, so it raises
  \<^verbatim>\<open>NameError\<close>; the assignments to \<^verbatim>\<open>before\<close> and the \<^verbatim>\<open>return\<close> statements behind it
  are never reached.
\<close>

definition pause :: "MusicPlayer \<Rightarrow> (exn + bool) \<times> MusicPlayer" where
  "pause s =
     (if is_paused (voice_client s)
      then (Inl NameError, s\<lparr>voice_client := vc_resume (voice_client s)\<rparr>)
      else (Inl NameError, s\<lparr>voice_client := vc_pause (voice_client s)\<rparr>))"

text \<open>\<^verbatim>\<open>check_timeout\<close>, with the current time \<^verbatim>\<open>time()\<close> as a parameter.\<close>

definition check_timeout :: "real \<Rightarrow> int \<Rightarrow> MusicPlayer \<Rightarrow> bool" where
  "check_timeout time t s =
     (if before s = 0 then False else time - before s > of_int t)"

subsection \<open>Example objects\<close>

text \<open>
  A store in which every track is titled \<^verbatim>\<open>Song1\<close> and is fresh, a voice client that is
  silent and accepts a start, one that refuses it, a resolver that gives track \<open>r\<close> the
  stream \<open>r\<close>, and one that fails for every track.
\<close>

definition song1 :: pystr where
  "song1 = map of_char ''Song1''"

definition store0 :: "ref \<Rightarrow> MusicData" where
  "store0 = (\<lambda>r. \<lparr>title = song1, make_get_source_attr = False, running = False,
                    close_calls = 0\<rparr>)"

definition idle_client :: VoiceClient where
  "idle_client =
     \<lparr>player = None, resumed = False, client_ready = True, after_registered = False\<rparr>"

definition offline_client :: VoiceClient where
  "offline_client =
     \<lparr>player = None, resumed = False, client_ready = False, after_registered = False\<rparr>"

definition resolve_ok :: "ref \<Rightarrow> exn + stream" where
  "resolve_ok r = Inr r"

definition resolve_fails :: "ref \<Rightarrow> exn + stream" where
  "resolve_fails r = Inl OtherException"

text \<open>The player after \<^verbatim>\<open>add_queue\<close> of the tracks \<open>ms\<close> on a new player.\<close>

definition loaded :: "ref list \<Rightarrow> MusicPlayer" where
  "loaded ms = snd (add_all ms (init idle_client store0))"

section \<open>Properties\<close>

lemmas example_defs = loaded_def init_def add_queue_def MAX'_def idle_client_def store0_def

subsection \<open>Enqueueing\<close>

lemma add_queue_below:
  "length' s \<noteq> MAX' \<Longrightarrow>
   add_queue m s =
     (Inr (), s\<lparr>heap := (heap s)(m := (heap s m)\<lparr>make_get_source_attr := True\<rparr>),
                queues := queues s @ [m], length' := length' s + 1\<rparr>)"
  by (simp add: add_queue_def)

lemma add_queue_full:
  "length' s = MAX' \<Longrightarrow>
   add_queue m s =
     (Inl OverflowError, s\<lparr>heap := (heap s)(m := (heap s m)\<lparr>make_get_source_attr := True\<rparr>)\<rparr>)"
  by (simp add: add_queue_def)

text \<open>
  A run of enqueues on a player whose counter agrees with its list, with room for all of
  them: every call succeeds, the tracks are appended in order, and the store changes only
  in the assigned attribute of the enqueued tracks.
\<close>

lemma add_all_run:
  "length' s = int (length (queues s)) \<Longrightarrow> length (queues s) + length ms \<le> 800 \<Longrightarrow>
   fst (add_all ms s) = Inr () \<and>
   queues (snd (add_all ms s)) = queues s @ ms \<and>
   length' (snd (add_all ms s)) = length' s + int (length ms) \<and>
   (\<forall>r. heap (snd (add_all ms s)) r =
        (if r \<in> set ms then (heap s r)\<lparr>make_get_source_attr := True\<rparr> else heap s r))"
proof (induction ms arbitrary: s)
  case Nil
  then show ?case by simp
next
  case (Cons m ms)
  let ?s' = "s\<lparr>heap := (heap s)(m := (heap s m)\<lparr>make_get_source_attr := True\<rparr>),
                queues := queues s @ [m], length' := length' s + 1\<rparr>"
  from Cons.prems have ne: "length' s \<noteq> MAX'"
    by (simp add: MAX'_def)
  have step: "add_all (m # ms) s = add_all ms ?s'"
    by (simp add: add_queue_below [OF ne])
  have "length' ?s' = int (length (queues ?s'))" and "length (queues ?s') + length ms \<le> 800"
    using Cons.prems by simp_all
  from Cons.IH [OF this] show ?case
    unfolding step by auto
qed

text \<open>
  Claim C2. Starting from the empty queue of a new player, a run of \<open>N \<le> 800\<close> enqueues
  succeeds throughout, leaves exactly the enqueued tracks in order (each one was appended
  behind those enqueued before it) and the counter at \<open>N\<close>. When \<open>N = 800\<close>, one more
  enqueue raises \<^verbatim>\<open>OverflowError\<close>; the list, the counter (800) and the stored tracks of
  the queue are what they were.
\<close>

theorem enqueue_up_to_capacity:
  assumes "length ms \<le> 800"
  shows "fst (add_all ms (init vc h)) = Inr () \<and>
         queues (snd (add_all ms (init vc h))) = ms \<and>
         length' (snd (add_all ms (init vc h))) = int (length ms) \<and>
         (\<forall>k < length ms.
            queues (snd (add_all (take (Suc k) ms) (init vc h)))
              = queues (snd (add_all (take k ms) (init vc h))) @ [ms ! k]) \<and>
         (length ms = 800 \<longrightarrow>
            fst (add_queue m (snd (add_all ms (init vc h)))) = Inl OverflowError \<and>
            queues (snd (add_queue m (snd (add_all ms (init vc h))))) = ms \<and>
            length' (snd (add_queue m (snd (add_all ms (init vc h))))) = 800 \<and>
            (\<forall>r \<in> set ms. heap (snd (add_queue m (snd (add_all ms (init vc h))))) r
                           = heap (snd (add_all ms (init vc h))) r))"
proof -
  have run: "fst (add_all ns (init vc h)) = Inr () \<and>
             queues (snd (add_all ns (init vc h))) = ns \<and>
             length' (snd (add_all ns (init vc h))) = int (length ns) \<and>
             (\<forall>r. heap (snd (add_all ns (init vc h))) r =
                (if r \<in> set ns then (h r)\<lparr>make_get_source_attr := True\<rparr> else h r))"
    if "length ns \<le> 800" for ns
    using add_all_run [of "init vc h" ns] that by (simp add: init_def)
  have tail: "queues (snd (add_all (take (Suc k) ms) (init vc h)))
              = queues (snd (add_all (take k ms) (init vc h))) @ [ms ! k]"
    if "k < length ms" for k
  proof -
    have "length (take (Suc k) ms) \<le> 800" and "length (take k ms) \<le> 800"
      using assms by simp_all
    then show ?thesis
      using run [of "take (Suc k) ms"] run [of "take k ms"] that
      by (simp add: take_Suc_conv_app_nth)
  qed
  have full: "fst (add_queue m (snd (add_all ms (init vc h)))) = Inl OverflowError \<and>
            queues (snd (add_queue m (snd (add_all ms (init vc h))))) = ms \<and>
            length' (snd (add_queue m (snd (add_all ms (init vc h))))) = 800 \<and>
            (\<forall>r \<in> set ms. heap (snd (add_queue m (snd (add_all ms (init vc h))))) r
                           = heap (snd (add_all ms (init vc h))) r)"
    if len: "length ms = 800"
  proof -
    let ?s = "snd (add_all ms (init vc h))"
    have "length' ?s = MAX'"
      using run [OF assms] len by (simp add: MAX'_def)
    from add_queue_full [OF this, of m] show ?thesis
      using run [OF assms] len by auto
  qed
  from run [OF assms] tail full show ?thesis by blast
qed

text \<open>The claim at 800 enqueues of track 5, followed by an enqueue of track 6.\<close>

theorem enqueue_up_to_capacity_witness:
  "length (replicate 800 (5::nat)) \<le> 800 \<and> length (replicate 800 (5::nat)) = 800 \<and>
   fst (add_all (replicate 800 5) (init idle_client store0)) = Inr () \<and>
   queues (snd (add_all (replicate 800 5) (init idle_client store0))) = replicate 800 5 \<and>
   length' (snd (add_all (replicate 800 5) (init idle_client store0))) = 800 \<and>
   fst (add_queue 6 (snd (add_all (replicate 800 5) (init idle_client store0))))
     = Inl OverflowError \<and>
   queues (snd (add_queue 6 (snd (add_all (replicate 800 5) (init idle_client store0)))))
     = replicate 800 5 \<and>
   length' (snd (add_queue 6 (snd (add_all (replicate 800 5) (init idle_client store0)))))
     = 800"
proof -
  have le: "length (replicate 800 (5::nat)) \<le> 800"
    and eq: "length (replicate 800 (5::nat)) = 800"
    by simp_all
  from enqueue_up_to_capacity [OF le, of idle_client store0 6] eq le
  show ?thesis by (simp only: of_nat_numeral simp_thms)
qed

subsection \<open>The length counter\<close>

text \<open>
  Claim C1. The counter is meant to equal the number of entries after every mutation.
  \<^verbatim>\<open>clear\<close> assigns the list and leaves the counter alone: on a player holding the two
  tracks 0 and 1 it leaves one entry and the counter at 2.
\<close>

theorem clear_length_counter_stale:
  "length' (loaded [0, 1]) = int (length (queues (loaded [0, 1]))) \<and>
   queues (clear (loaded [0, 1])) = [0] \<and>
   length' (clear (loaded [0, 1])) = 2 \<and>
   length' (clear (loaded [0, 1])) \<noteq> int (length (queues (clear (loaded [0, 1]))))"
  by (simp add: clear_def example_defs)

text \<open>
  Claim C8. On a queue of three tracks \<^verbatim>\<open>clear\<close> keeps exactly the head, and the counter
  still reads 3.
\<close>

theorem clear_three_tracks:
  "queues (loaded [4, 5, 6]) = [4, 5, 6] \<and> length' (loaded [4, 5, 6]) = 3 \<and>
   queues (clear (loaded [4, 5, 6])) = [4] \<and> length' (clear (loaded [4, 5, 6])) = 3"
  by (simp add: clear_def example_defs)

text \<open>What \<^verbatim>\<open>clear\<close> does on any non-empty queue.\<close>

lemma clear_nonempty:
  "queues s = q # qs \<Longrightarrow> clear s = s\<lparr>queues := [q]\<rparr>"
  by (simp add: clear_def)

subsection \<open>Pausing\<close>

text \<open>
  Claim C5. With track 0 playing, \<^verbatim>\<open>pause\<close> pauses the voice client and then raises
  \<^verbatim>\<open>NameError\<close>: nothing is returned, the head is still marked started and the
  timestamp is still 0.
\<close>

theorem pause_raises_NameError:
  "is_playing (voice_client (snd (play resolve_ok (loaded [0])))) \<and>
   fst (pause (snd (play resolve_ok (loaded [0])))) = Inl NameError \<and>
   is_paused (voice_client (snd (pause (snd (play resolve_ok (loaded [0])))))) \<and>
   running (heap (snd (pause (snd (play resolve_ok (loaded [0]))))) 0) \<and>
   before (snd (pause (snd (play resolve_ok (loaded [0]))))) = 0"
  by (simp add: pause_def play_def resolve_ok_def vc_play_def vc_pause_def is_playing_def
      is_paused_def started_def example_defs)

text \<open>Every call of \<^verbatim>\<open>pause\<close> ends in that exception, whatever the state.\<close>

lemma pause_always_raises:
  "fst (pause s) = Inl NameError \<and> before (snd (pause s)) = before s \<and>
   heap (snd (pause s)) = heap s \<and> queues (snd (pause s)) = queues s"
  by (simp add: pause_def)

subsection \<open>Staleness\<close>

text \<open>
  Claim C6, as stated, fails when exactly 300 seconds have elapsed: after a skip at time
  1000 the check at time 1300 answers \<^verbatim>\<open>False\<close>.
\<close>

theorem check_timeout_at_300_counterexample:
  "before (skip 1000 (loaded [0])) = 1000 \<and>
   300 \<le> 1300 - before (skip 1000 (loaded [0])) \<and>
   \<not> check_timeout 1300 300 (skip 1000 (loaded [0]))"
  by (simp add: check_timeout_def skip_def)

text \<open>
  Claim C6, amended. \<^verbatim>\<open>check_timeout(300)\<close> answers \<^verbatim>\<open>True\<close> exactly when the timestamp
  is not 0 and more than 300 seconds have elapsed since it; so it answers \<^verbatim>\<open>False\<close>
  whenever the timestamp is 0, and also when at most 300 seconds have elapsed.
\<close>

theorem check_timeout_strict:
  "check_timeout time 300 s = (before s \<noteq> 0 \<and> 300 < time - before s)"
  by (simp add: check_timeout_def)

subsection \<open>Removing\<close>

text \<open>
  Claim C10. \<^verbatim>\<open>remove_queue\<close> with an integer outside \<open>-len \<le> i < len\<close> raises
  \<^verbatim>\<open>IndexError\<close>, and with an object that is not in the queue raises \<^verbatim>\<open>ValueError\<close>;
  whenever it raises, the player is exactly what it was, list and counter included. The
  counter goes down by one only together with a removal.
\<close>

theorem remove_queue_failure:
  "(i < - int (length (queues s)) \<or> int (length (queues s)) \<le> i
      \<longrightarrow> remove_queue (Inl i) s = (Inl IndexError, s)) \<and>
   (m \<notin> set (queues s) \<longrightarrow> remove_queue (Inr m) s = (Inl ValueError, s)) \<and>
   (\<forall>e. fst (remove_queue index s) = Inl e \<longrightarrow> snd (remove_queue index s) = s) \<and>
   (fst (remove_queue index s) = Inr () \<longrightarrow>
      length' (snd (remove_queue index s)) = length' s - 1 \<and>
      Suc (length (queues (snd (remove_queue index s)))) = length (queues s))"
proof -
  have succ_int: "Suc (length (del_at (nat (if i < 0 then i + int (length xs) else i)) xs)) = length xs"
    if "- int (length xs) \<le> i" "i < int (length xs)" for i and xs :: "ref list"
    using that by (auto simp: del_at_def)
  have succ_ref: "Suc (length (remove1 m xs)) = length xs" if "m \<in> set xs" for m and xs :: "ref list"
    using that by (simp add: length_remove1) (metis Suc_pred length_pos_if_in_set)
  show ?thesis
    by (cases index) (auto simp: remove_queue_def Let_def succ_int succ_ref simp del: length_0_conv)
qed

theorem remove_queue_failure_witness:
  "remove_queue (Inl 2) (loaded [0, 1]) = (Inl IndexError, loaded [0, 1]) \<and>
   remove_queue (Inl (- 3)) (loaded [0, 1]) = (Inl IndexError, loaded [0, 1]) \<and>
   remove_queue (Inr 5) (loaded [0, 1]) = (Inl ValueError, loaded [0, 1]) \<and>
   fst (remove_queue (Inl (- 1)) (loaded [0, 1])) = Inr () \<and>
   queues (snd (remove_queue (Inl (- 1)) (loaded [0, 1]))) = [0] \<and>
   length' (snd (remove_queue (Inl (- 1)) (loaded [0, 1]))) = 1"
proof -
  have q: "queues (loaded [0, 1]) = [0, 1]" and l: "length' (loaded [0, 1]) = 2"
    by (simp_all add: example_defs)
  have ok: "fst (remove_queue (Inl (- 1)) (loaded [0, 1])) = Inr ()"
    and res: "queues (snd (remove_queue (Inl (- 1)) (loaded [0, 1]))) = [0]"
    by (simp_all add: remove_queue_def del_at_def example_defs)
  from remove_queue_failure [of 2 "loaded [0, 1]" 5 "Inl (- 1)"]
    remove_queue_failure [of "- 3" "loaded [0, 1]" 5 "Inl (- 1)"] q l ok res
  show ?thesis by simp
qed

subsection \<open>Shuffling\<close>

lemma length_swap: "length (swap i j xs) = length xs"
  by (simp add: swap_def)

lemma mset_swap_list: "i < length xs \<Longrightarrow> j < length xs \<Longrightarrow> mset (swap i j xs) = mset xs"
  unfolding swap_def by (rule mset_swap)

lemma shuffle_from_perm:
  "k < length xs \<Longrightarrow> mset (shuffle_from rnd k xs) = mset xs \<and> length (shuffle_from rnd k xs) = length xs"
proof (induction k arbitrary: xs)
  case 0
  then show ?case by simp
next
  case (Suc k)
  let ?j = "rnd (Suc k) mod Suc (Suc k)"
  have j: "?j < length xs"
    using Suc.prems by (meson less_trans_Suc mod_less_divisor not_less_eq zero_less_Suc less_Suc_eq_le order_less_le_trans)
  have "k < length (swap (Suc k) ?j xs)"
    using Suc.prems by (simp add: length_swap)
  from Suc.IH [OF this] show ?case
    using Suc.prems j by (simp add: mset_swap_list length_swap)
qed

lemma random_shuffle_perm:
  "mset (random_shuffle rnd xs) = mset xs \<and> length (random_shuffle rnd xs) = length xs"
proof (cases xs)
  case Nil
  then show ?thesis by (simp add: random_shuffle_def)
next
  case (Cons y ys)
  then have "length xs - 1 < length xs" by simp
  from shuffle_from_perm [OF this] show ?thesis
    by (simp add: random_shuffle_def)
qed

text \<open>
  Claim C7. Whatever numbers are drawn, \<^verbatim>\<open>shuffle\<close> leaves the reference at position 0
  where it is, the references behind it are the same multiset as before, and neither the
  stored objects nor the counter change; when the counter is not greater than 1 the player
  is unchanged, and so is the list whenever it has at most one entry.
\<close>

theorem shuffle_pins_head:
  "take 1 (queues (shuffle rnd s)) = take 1 (queues s) \<and>
   mset (drop 1 (queues (shuffle rnd s))) = mset (drop 1 (queues s)) \<and>
   length (queues (shuffle rnd s)) = length (queues s) \<and>
   heap (shuffle rnd s) = heap s \<and> length' (shuffle rnd s) = length' s \<and>
   (\<not> 1 < length' s \<longrightarrow> shuffle rnd s = s) \<and>
   (length (queues s) \<le> 1 \<longrightarrow> queues (shuffle rnd s) = queues s)"
proof (cases "queues s")
  case Nil
  then show ?thesis
    by (simp add: shuffle_def Let_def random_shuffle_def)
next
  case (Cons q qs)
  have "random_shuffle rnd qs = qs" if "qs = []"
    using that by (simp add: random_shuffle_def)
  with Cons show ?thesis
    using random_shuffle_perm [of rnd qs]
    by (simp add: shuffle_def Let_def)
qed

theorem shuffle_pins_head_witness:
  "\<not> 1 < length' (loaded [7]) \<and> shuffle (\<lambda>i. 0) (loaded [7]) = loaded [7] \<and>
   queues (shuffle (\<lambda>i. 0) (loaded [0, 1, 2, 3])) = [0, 2, 3, 1] \<and>
   take 1 (queues (shuffle (\<lambda>i. 0) (loaded [0, 1, 2, 3]))) = take 1 (queues (loaded [0, 1, 2, 3])) \<and>
   mset (drop 1 (queues (shuffle (\<lambda>i. 0) (loaded [0, 1, 2, 3])))) = mset (drop 1 (queues (loaded [0, 1, 2, 3])))"
proof -
  have small: "\<not> 1 < length' (loaded [7])"
    by (simp add: example_defs)
  have run: "queues (shuffle (\<lambda>i. 0) (loaded [0, 1, 2, 3])) = [0, 2, 3, 1]"
    by (simp add: shuffle_def random_shuffle_def swap_def example_defs)
  from shuffle_pins_head [of "\<lambda>i. 0" "loaded [7]"] shuffle_pins_head [of "\<lambda>i. 0" "loaded [0, 1, 2, 3]"]
    small run
  show ?thesis by simp
qed

subsection \<open>Starting playback\<close>

text \<open>
  Claim C4. \<^verbatim>\<open>play\<close> returns \<^verbatim>\<open>False\<close> and changes nothing when the queue is empty or the
  voice client is playing. With a resolved stream, when the voice client refuses the start
  with a \<^verbatim>\<open>ClientException\<close>, \<^verbatim>\<open>play\<close> returns \<^verbatim>\<open>False\<close>, and list, counter and voice
  client are unchanged; when the voice client accepts, \<^verbatim>\<open>play\<close> returns \<^verbatim>\<open>True\<close>, the head
  is marked started, \<^verbatim>\<open>before\<close> is 0, and the voice client plays the resolved stream with
  the completion callback registered.
\<close>

theorem play_cases:
  "(queues s = [] \<or> is_playing (voice_client s) \<longrightarrow> play gs s = (Inr False, s)) \<and>
   (queues s = q # rest \<and> \<not> is_playing (voice_client s) \<and> gs q = Inr src
      \<and> vc_play src (voice_client s) = Inl ClientException \<longrightarrow>
        fst (play gs s) = Inr False \<and> queues (snd (play gs s)) = queues s \<and>
        length' (snd (play gs s)) = length' s \<and> voice_client (snd (play gs s)) = voice_client s) \<and>
   (queues s = q # rest \<and> \<not> is_playing (voice_client s) \<and> gs q = Inr src
      \<and> vc_play src (voice_client s) = Inr vc \<longrightarrow>
        play gs s = (Inr True, s\<lparr>heap := (heap s)(q := started (heap s q)), before := 0,
                                  voice_client := vc\<rparr>) \<and>
        vc = (voice_client s)\<lparr>player := Some src, resumed := True, after_registered := True\<rparr> \<and>
        is_playing vc)"
  by (auto simp: play_def Let_def vc_play_def is_playing_def split: list.splits if_splits)

text \<open>
  The three cases on examples: a new player, a player with track 2 whose voice client
  refuses, and a player with track 2 whose voice client accepts.
\<close>

theorem play_cases_witness:
  "queues (init idle_client store0) = [] \<and>
   play resolve_ok (init idle_client store0) = (Inr False, init idle_client store0) \<and>
   vc_play 2 (voice_client ((loaded [2])\<lparr>voice_client := offline_client\<rparr>)) = Inl ClientException \<and>
   fst (play resolve_ok ((loaded [2])\<lparr>voice_client := offline_client\<rparr>)) = Inr False \<and>
   queues (snd (play resolve_ok ((loaded [2])\<lparr>voice_client := offline_client\<rparr>))) = [2] \<and>
   length' (snd (play resolve_ok ((loaded [2])\<lparr>voice_client := offline_client\<rparr>))) = 1 \<and>
   fst (play resolve_ok (loaded [2])) = Inr True \<and>
   running (heap (snd (play resolve_ok (loaded [2]))) 2) \<and>
   before (snd (play resolve_ok (loaded [2]))) = 0 \<and>
   player (voice_client (snd (play resolve_ok (loaded [2])))) = Some 2 \<and>
   after_registered (voice_client (snd (play resolve_ok (loaded [2]))))"
proof -
  let ?r = "(loaded [2])\<lparr>voice_client := offline_client\<rparr>"
  let ?vc = "idle_client\<lparr>player := Some 2, resumed := True, after_registered := True\<rparr>"
  have e: "queues (init idle_client store0) = []"
    by (simp add: init_def)
  have r: "queues ?r = [2]" "\<not> is_playing (voice_client ?r)" "resolve_ok 2 = Inr 2"
    "vc_play 2 (voice_client ?r) = Inl ClientException" "length' ?r = 1"
    by (simp_all add: example_defs is_playing_def offline_client_def resolve_ok_def vc_play_def)
  have p: "queues (loaded [2]) = [2]" "\<not> is_playing (voice_client (loaded [2]))"
    "vc_play 2 (voice_client (loaded [2])) = Inr ?vc"
    by (simp_all add: example_defs is_playing_def vc_play_def)
  from play_cases [of "init idle_client store0" resolve_ok] e
  have a: "play resolve_ok (init idle_client store0) = (Inr False, init idle_client store0)"
    by blast
  from play_cases [of ?r resolve_ok 2 "[]" 2] r
  have b: "fst (play resolve_ok ?r) = Inr False \<and> queues (snd (play resolve_ok ?r)) = [2] \<and>
           length' (snd (play resolve_ok ?r)) = 1"
    by simp
  from play_cases [of "loaded [2]" resolve_ok 2 "[]" 2 ?vc] p r(3)
  have c: "play resolve_ok (loaded [2]) =
      (Inr True, (loaded [2])\<lparr>heap := (heap (loaded [2]))(2 := started (heap (loaded [2]) 2)),
         before := 0, voice_client := ?vc\<rparr>)"
    by blast
  show ?thesis
    using e a b r(4) by (simp add: c started_def)
qed

text \<open>What \<^verbatim>\<open>play\<close> never touches, and what a successful start establishes.\<close>

lemma play_keeps:
  "queues (snd (play gs s)) = queues s \<and> length' (snd (play gs s)) = length' s \<and>
   loop_attr (snd (play gs s)) = loop_attr s \<and>
   close_calls (heap (snd (play gs s)) r) = close_calls (heap s r) \<and>
   channel (snd (play gs s)) = channel s \<and> tasks (snd (play gs s)) = tasks s"
  by (auto simp: play_def Let_def started_def vc_play_def split: list.splits sum.splits)

lemma play_starts:
  "queues s = q # rest \<Longrightarrow> \<not> is_playing (voice_client s) \<Longrightarrow> gs q = Inr src \<Longrightarrow>
   client_ready (voice_client s) \<Longrightarrow>
   fst (play gs s) = Inr True \<and> is_playing (voice_client (snd (play gs s))) \<and>
   player (voice_client (snd (play gs s))) = Some src \<and> running (heap (snd (play gs s)) q)"
  by (simp add: play_def Let_def started_def vc_play_def is_playing_def)

text \<open>
  When resolving the head fails with anything but a \<^verbatim>\<open>ClientException\<close>, the exception
  leaves \<^verbatim>\<open>play\<close>; by then the head is marked started and \<^verbatim>\<open>before\<close> is 0.
\<close>

lemma play_resolver_fails:
  "queues s = q # rest \<Longrightarrow> \<not> is_playing (voice_client s) \<Longrightarrow> gs q = Inl e \<Longrightarrow>
   e \<noteq> ClientException \<Longrightarrow>
   play gs s = (Inl e, s\<lparr>heap := (heap s)(q := started (heap s q)), before := 0\<rparr>)"
  by (simp add: play_def)

subsection \<open>The completion callback\<close>

text \<open>
  On a non-empty queue \<^verbatim>\<open>_after\<close> releases the head, prints a supplied error, removes the
  head unless the loop flag is set, and then runs \<^verbatim>\<open>play\<close> on the result; an exception of
  \<^verbatim>\<open>play\<close> is answered by the message and one scheduled task.
\<close>

lemma after_unfold:
  assumes "queues s = q0 # rest"
  shows "after e gs s =
     (let s2 = s\<lparr>heap := (heap s)(q0 := close (heap s q0)),
                  printed := printed s @ (case e of None \<Rightarrow> [] | Some x \<Rightarrow> [x])\<rparr>;
          s3 = (if loop_attr s then s2 else s2\<lparr>queues := rest, length' := length' s - 1\<rparr>)
      in case play gs s3 of
           (Inl x, s4) \<Rightarrow> (Inr (), s4\<lparr>channel := channel s4 @ [replace 64 65312 error_text],
                                    tasks := tasks s4 @ [None]\<rparr>)
         | (Inr b, s4) \<Rightarrow> (Inr (), s4))"
  using assms
  by (cases e) (simp_all add: after_def remove_queue_def del_at_def Let_def)

text \<open>
  Claim C3. On a non-empty queue with the loop flag off, \<^verbatim>\<open>_after\<close> releases the head once,
  removes it and decrements the counter; if a further entry exists, the voice client is
  silent and ready and the resolver yields a stream for the new head, then afterwards the
  new head is marked started and the voice client plays its stream. With the loop flag on
  the list and the counter are unchanged, the head is released once, and under the same
  conditions the same head is started and played again.
\<close>

theorem after_completion:
  assumes "queues s = q0 # rest"
  shows "(\<not> loop_attr s \<longrightarrow>
            queues (snd (after e gs s)) = rest \<and>
            length' (snd (after e gs s)) = length' s - 1 \<and>
            close_calls (heap (snd (after e gs s)) q0) = Suc (close_calls (heap s q0)) \<and>
            (rest = q1 # rest' \<and> \<not> is_playing (voice_client s) \<and> gs q1 = Inr src
               \<and> client_ready (voice_client s) \<longrightarrow>
                 fst (after e gs s) = Inr () \<and>
                 is_playing (voice_client (snd (after e gs s))) \<and>
                 player (voice_client (snd (after e gs s))) = Some src \<and>
                 running (heap (snd (after e gs s)) q1))) \<and>
         (loop_attr s \<longrightarrow>
            queues (snd (after e gs s)) = q0 # rest \<and>
            length' (snd (after e gs s)) = length' s \<and>
            close_calls (heap (snd (after e gs s)) q0) = Suc (close_calls (heap s q0)) \<and>
            (\<not> is_playing (voice_client s) \<and> gs q0 = Inr src
               \<and> client_ready (voice_client s) \<longrightarrow>
                 fst (after e gs s) = Inr () \<and>
                 is_playing (voice_client (snd (after e gs s))) \<and>
                 player (voice_client (snd (after e gs s))) = Some src \<and>
                 running (heap (snd (after e gs s)) q0)))"
proof -
  let ?s2 = "s\<lparr>heap := (heap s)(q0 := close (heap s q0)),
               printed := printed s @ (case e of None \<Rightarrow> [] | Some x \<Rightarrow> [x])\<rparr>"
  let ?s3 = "if loop_attr s then ?s2 else ?s2\<lparr>queues := rest, length' := length' s - 1\<rparr>"
  have shape: "snd (after e gs s) = snd (play gs ?s3) \<or>
     snd (after e gs s) = (snd (play gs ?s3))\<lparr>channel := channel (snd (play gs ?s3)) @ [replace 64 65312 error_text],
        tasks := tasks (snd (play gs ?s3)) @ [None]\<rparr>"
    unfolding after_unfold [OF assms] Let_def
    by (cases "play gs ?s3") (auto split: sum.splits)
  have ok: "fst (play gs ?s3) = Inr b \<Longrightarrow> after e gs s = (Inr (), snd (play gs ?s3))" for b
    unfolding after_unfold [OF assms] Let_def
    by (cases "play gs ?s3") (auto split: sum.splits)
  have off: "queues (snd (after e gs s)) = rest \<and>
            length' (snd (after e gs s)) = length' s - 1 \<and>
            close_calls (heap (snd (after e gs s)) q0) = Suc (close_calls (heap s q0))"
    if "\<not> loop_attr s"
    using shape play_keeps [of gs ?s3 q0] that by (auto simp: close_def)
  have on: "queues (snd (after e gs s)) = q0 # rest \<and>
            length' (snd (after e gs s)) = length' s \<and>
            close_calls (heap (snd (after e gs s)) q0) = Suc (close_calls (heap s q0))"
    if "loop_attr s"
    using shape play_keeps [of gs ?s3 q0] assms that by (auto simp: close_def)
  have off_play: "fst (after e gs s) = Inr () \<and>
                 is_playing (voice_client (snd (after e gs s))) \<and>
                 player (voice_client (snd (after e gs s))) = Some src \<and>
                 running (heap (snd (after e gs s)) q1)"
    if "\<not> loop_attr s" "rest = q1 # rest'" "\<not> is_playing (voice_client s)" "gs q1 = Inr src"
       "client_ready (voice_client s)"
  proof -
    have "queues ?s3 = q1 # rest'" "\<not> is_playing (voice_client ?s3)" "client_ready (voice_client ?s3)"
      using that by simp_all
    from play_starts [of ?s3 q1 rest' gs src, OF this(1,2) that(4) this(3)] show ?thesis
      using ok [of True] by simp
  qed
  have on_play: "fst (after e gs s) = Inr () \<and>
                 is_playing (voice_client (snd (after e gs s))) \<and>
                 player (voice_client (snd (after e gs s))) = Some src \<and>
                 running (heap (snd (after e gs s)) q0)"
    if "loop_attr s" "\<not> is_playing (voice_client s)" "gs q0 = Inr src"
       "client_ready (voice_client s)"
  proof -
    have "queues ?s3 = q0 # rest" "\<not> is_playing (voice_client ?s3)" "client_ready (voice_client ?s3)"
      using that assms by simp_all
    from play_starts [of ?s3 q0 rest gs src, OF this(1,2) that(3) this(3)] show ?thesis
      using ok [of True] by simp
  qed
  from off on off_play on_play show ?thesis by blast
qed

text \<open>The claim on the tracks 2 and 3, with the loop flag off and after \<^verbatim>\<open>loop()\<close>.\<close>

theorem after_completion_witness:
  "queues (loaded [2, 3]) = [2, 3] \<and> \<not> loop_attr (loaded [2, 3]) \<and>
   queues (snd (after None resolve_ok (loaded [2, 3]))) = [3] \<and>
   length' (snd (after None resolve_ok (loaded [2, 3]))) = 1 \<and>
   close_calls (heap (snd (after None resolve_ok (loaded [2, 3]))) 2) = 1 \<and>
   player (voice_client (snd (after None resolve_ok (loaded [2, 3])))) = Some 3 \<and>
   running (heap (snd (after None resolve_ok (loaded [2, 3]))) 3) \<and>
   loop_attr (snd (loop (loaded [2, 3]))) \<and>
   queues (snd (after None resolve_ok (snd (loop (loaded [2, 3]))))) = [2, 3] \<and>
   length' (snd (after None resolve_ok (snd (loop (loaded [2, 3]))))) = 2 \<and>
   player (voice_client (snd (after None resolve_ok (snd (loop (loaded [2, 3])))))) = Some 2 \<and>
   running (heap (snd (after None resolve_ok (snd (loop (loaded [2, 3]))))) 2)"
proof -
  let ?s = "loaded [2, 3]" and ?t = "snd (loop (loaded [2, 3]))"
  have s: "queues ?s = [2, 3]" "\<not> loop_attr ?s" "\<not> is_playing (voice_client ?s)"
    "client_ready (voice_client ?s)" "length' ?s = 2" "close_calls (heap ?s 2) = 0"
    by (simp_all add: example_defs is_playing_def)
  have t: "queues ?t = [2, 3]" "loop_attr ?t" "\<not> is_playing (voice_client ?t)"
    "client_ready (voice_client ?t)" "length' ?t = 2"
    by (simp_all add: loop_def example_defs is_playing_def)
  have g: "resolve_ok 3 = Inr 3" "resolve_ok 2 = Inr 2"
    by (simp_all add: resolve_ok_def)
  from after_completion [of ?s 2 "[3]" None resolve_ok 3 "[]" 3] s g
  have off: "queues (snd (after None resolve_ok ?s)) = [3] \<and>
     length' (snd (after None resolve_ok ?s)) = 1 \<and>
     close_calls (heap (snd (after None resolve_ok ?s)) 2) = 1 \<and>
     player (voice_client (snd (after None resolve_ok ?s))) = Some 3 \<and>
     running (heap (snd (after None resolve_ok ?s)) 3)"
    by simp
  from after_completion [of ?t 2 "[3]" None resolve_ok 3 "[]" 2] t g
  have on: "queues (snd (after None resolve_ok ?t)) = [2, 3] \<and>
     length' (snd (after None resolve_ok ?t)) = 2 \<and>
     player (voice_client (snd (after None resolve_ok ?t))) = Some 2 \<and>
     running (heap (snd (after None resolve_ok ?t)) 2)"
    by simp
  from off on s(1,2) t(2) show ?thesis by blast
qed

subsection \<open>The message after a failed restart\<close>

lemma replace_error_text: "replace 64 65312 error_text = error_text"
  by (simp add: replace_def error_text_def)

lemma no_title: "\<not> sublist song1 error_text"
  by (simp add: song1_def error_text_def sublist_Cons_right)

text \<open>
  Claim C9. The tracks 2 and 3 are queued, both titled \<^verbatim>\<open>Song1\<close>, and resolving fails.
  \<^verbatim>\<open>_after\<close> removes track 2, \<^verbatim>\<open>play\<close> raises on track 3, one message is sent and one
  task running \<^verbatim>\<open>_after(None)\<close> is created. The message is the literal text with the
  placeholder in it; the title of the failed track does not occur in it.
\<close>

theorem after_error_text_literal:
  "fst (after None resolve_fails (loaded [2, 3])) = Inr () \<and>
   queues (snd (after None resolve_fails (loaded [2, 3]))) = [3] \<and>
   title (heap (snd (after None resolve_fails (loaded [2, 3]))) 3) = song1 \<and>
   channel (snd (after None resolve_fails (loaded [2, 3]))) = [error_text] \<and>
   \<not> sublist song1 error_text \<and>
   tasks (snd (after None resolve_fails (loaded [2, 3]))) = [None]"
proof -
  have q: "queues (loaded [2, 3]) = [2, 3]"
    by (simp add: example_defs)
  have run: "after None resolve_fails (loaded [2, 3]) =
    (Inr (), (loaded [2, 3])\<lparr>heap := (heap (loaded [2, 3]))
        (2 := close (heap (loaded [2, 3]) 2), 3 := started (heap (loaded [2, 3]) 3)),
       queues := [3], length' := length' (loaded [2, 3]) - 1, before := 0,
       channel := channel (loaded [2, 3]) @ [error_text],
       tasks := tasks (loaded [2, 3]) @ [None]\<rparr>)"
    unfolding after_unfold [OF q]
    by (simp add: play_def resolve_fails_def replace_error_text Let_def is_playing_def example_defs)
  show ?thesis
    unfolding run by (simp add: no_title started_def) (simp add: example_defs)
qed

subsection \<open>Operations that keep the counter in step\<close>

text \<open>
  Unlike \<^verbatim>\<open>clear\<close>, the other mutating operations preserve the agreement of the counter
  with the list (for \<^verbatim>\<open>shuffle\<close> see above: it changes neither the counter nor the number
  of entries).
\<close>

lemma add_queue_counter:
  "length' s = int (length (queues s)) \<Longrightarrow>
   length' (snd (add_queue m s)) = int (length (queues (snd (add_queue m s))))"
  by (simp add: add_queue_def Let_def)

lemma remove_queue_counter:
  "length' s = int (length (queues s)) \<Longrightarrow>
   length' (snd (remove_queue index s)) = int (length (queues (snd (remove_queue index s))))"
proof (cases index)
  case (Inl i)
  assume "length' s = int (length (queues s))"
  with Inl show ?thesis
    by (auto simp: remove_queue_def Let_def del_at_def)
next
  case (Inr m)
  assume inv: "length' s = int (length (queues s))"
  show ?thesis
  proof (cases "m \<in> set (queues s)")
    case True
    then have "0 < length (queues s)"
      by (rule length_pos_if_in_set)
    then have pred: "int (length (queues s) - Suc 0) = int (length (queues s)) - 1"
      by linarith
    from True Inr inv show ?thesis
      by (simp add: remove_queue_def length_remove1 pred)
  next
    case False
    with Inr inv show ?thesis
      by (simp add: remove_queue_def)
  qed
qed

lemma after_counter:
  "length' s = int (length (queues s)) \<Longrightarrow>
   length' (snd (after e gs s)) = int (length (queues (snd (after e gs s))))"
proof (cases "queues s")
  case Nil
  assume "length' s = int (length (queues s))"
  with Nil show ?thesis by (simp add: after_def)
next
  case (Cons q0 rest)
  assume inv: "length' s = int (length (queues s))"
  let ?s2 = "s\<lparr>heap := (heap s)(q0 := close (heap s q0)),
               printed := printed s @ (case e of None \<Rightarrow> [] | Some x \<Rightarrow> [x])\<rparr>"
  let ?s3 = "if loop_attr s then ?s2 else ?s2\<lparr>queues := rest, length' := length' s - 1\<rparr>"
  have "length' ?s3 = int (length (queues ?s3))"
    using inv Cons by simp
  then show ?thesis
    unfolding after_unfold [OF Cons] Let_def
    using play_keeps [of gs ?s3]
    by (cases "play gs ?s3") (auto split: sum.splits)
qed

end
